theory Spec2Isabelle
  imports Complex_Main "HOL-Library.Multiset"
begin

section \<open>Python values and errors\<close>

text \<open>
  The program is Python: every raise of the source is a value \<open>Inl e\<close> of the model.
  Command-line attributes are dynamically typed; the values argparse can put into them
  (\<open>None\<close>, an integer default, the empty-list default, a string) are one datatype.
  Floating-point columns are modelled by rationals: NaN and infinities are not values of
  the model.
\<close>

datatype py_error = ValueError | TypeError | IndexError

datatype py_val = PyNone | PyInt int | PyStr string | PyEmptyList

definition bind_err :: "py_error + 'a \<Rightarrow> ('a \<Rightarrow> py_error + 'b) \<Rightarrow> py_error + 'b" where
  "bind_err m f = (case m of Inl e \<Rightarrow> Inl e | Inr x \<Rightarrow> f x)"

subsection \<open>\<open>int(s)\<close> on a string\<close>

text \<open>
  \<open>int\<close> strips surrounding white space, reads an optional sign and then decimal digits,
  with single underscores allowed between digits. Strings are byte strings here, so only
  ASCII digits are read.
\<close>

definition is_space :: "char \<Rightarrow> bool" where
  "is_space c = (let n = (of_char c :: nat) in (9 \<le> n \<and> n \<le> 13) \<or> (28 \<le> n \<and> n \<le> 32))"

definition strip :: "string \<Rightarrow> string" where
  "strip s = rev (dropWhile is_space (rev (dropWhile is_space s)))"

definition digit_val :: "char \<Rightarrow> int option" where
  "digit_val c = (let n = (of_char c :: nat) in
     if 48 \<le> n \<and> n \<le> 57 then Some (int n - 48) else None)"

fun parse_digits :: "int \<Rightarrow> bool \<Rightarrow> string \<Rightarrow> int option" where
  "parse_digits acc after_digit [] = (if after_digit then Some acc else None)"
| "parse_digits acc after_digit (c # cs) =
     (if c = CHR ''_'' then (if after_digit then parse_digits acc False cs else None)
      else (case digit_val c of
              None \<Rightarrow> None
            | Some d \<Rightarrow> parse_digits (10 * acc + d) True cs))"

definition int_of_str :: "string \<Rightarrow> int option" where
  "int_of_str s =
     (case strip s of
        [] \<Rightarrow> None
      | c # cs \<Rightarrow>
          if c = CHR ''-'' then map_option uminus (parse_digits 0 False cs)
          else if c = CHR ''+'' then parse_digits 0 False cs
          else parse_digits 0 False (c # cs))"

definition py_int :: "py_val \<Rightarrow> py_error + int" where
  "py_int v =
     (case v of
        PyNone \<Rightarrow> Inl TypeError
      | PyEmptyList \<Rightarrow> Inl TypeError
      | PyInt n \<Rightarrow> Inr n
      | PyStr s \<Rightarrow> (case int_of_str s of None \<Rightarrow> Inl ValueError | Some n \<Rightarrow> Inr n))"

definition py_len :: "py_val \<Rightarrow> py_error + nat" where
  "py_len v =
     (case v of
        PyNone \<Rightarrow> Inl TypeError
      | PyInt n \<Rightarrow> Inl TypeError
      | PyEmptyList \<Rightarrow> Inr 0
      | PyStr s \<Rightarrow> Inr (length s))"

section \<open>\<open>main\<close>: the configuration boundary\<close>

text \<open>
  The attributes of \<open>init_parser\<close> that \<open>main\<close> converts. Every option is declared with
  \<open>nargs='?'\<close>: it is its default when absent, \<open>None\<close> when given without a value and a
  string otherwise. The defaults are \<open>None\<close> for \<open>-C\<close>, \<open>-X\<close>, \<open>-L\<close> and \<open>-K\<close>, the
  integer 2000 for \<open>-Trim\<close> and the empty list for \<open>-Abbrev\<close>.
\<close>

record args =
  arg_C :: py_val
  arg_X :: py_val
  arg_L :: py_val
  arg_Abbrev :: py_val
  arg_K :: py_val
  arg_Trim :: py_val

definition default_args :: args where
  "default_args = \<lparr>arg_C = PyNone, arg_X = PyNone, arg_L = PyNone, arg_Abbrev = PyEmptyList,
     arg_K = PyNone, arg_Trim = PyInt 2000\<rparr>"

record config =
  cfg_Trim :: int
  cfg_C :: int
  cfg_X :: "int option"
  cfg_L :: "int option"
  cfg_K :: int
  cfg_Abbrev :: py_val

text \<open>
  Lines 534 to 554 of \<open>main\<close>, in the order of the source: \<open>Trim\<close>, \<open>C\<close>, \<open>X\<close>, \<open>L\<close>, then
  \<open>K\<close>. A failing \<open>int\<close> ends the run there.
\<close>

definition main_config :: "args \<Rightarrow> py_error + config" where
  "main_config a =
     bind_err (if arg_Trim a \<noteq> PyNone then py_int (arg_Trim a) else Inr 2000) (\<lambda>Trim.
     bind_err (if arg_C a \<noteq> PyNone then map_sum id abs (py_int (arg_C a)) else Inr 1) (\<lambda>C.
     bind_err (if arg_X a \<noteq> PyNone then map_sum id Some (py_int (arg_X a)) else Inr None) (\<lambda>X.
     bind_err (if arg_L a \<noteq> PyNone then map_sum id Some (py_int (arg_L a)) else Inr None) (\<lambda>L.
     bind_err (if arg_K a \<noteq> PyNone then py_int (arg_K a) else Inr 2) (\<lambda>K.
       Inr \<lparr>cfg_Trim = Trim, cfg_C = C, cfg_X = X, cfg_L = L,
            cfg_K = (if K > 4 then 4 else K), cfg_Abbrev = arg_Abbrev a\<rparr>)))))"

section \<open>Library operations used by the engine\<close>

text \<open>
  pandas, numpy, xlmhg and scipy are not part of the repository. The three operations
  whose results depend on their internals are parameters of the model: the XL-mHG test
  (which may raise), the t-test, and \<open>argsort\<close>, the index sort behind
  \<open>sort_values\<close>. The source always calls \<open>sort_values\<close> with its default kind,
  quicksort, which promises an ascending permutation of the positions and nothing about
  the order of equal keys.
\<close>

record lib =
  xlmhg_test :: "int list \<Rightarrow> int \<Rightarrow> int \<Rightarrow> py_error + (rat \<times> int \<times> rat)"
  ttest_ind :: "rat list \<Rightarrow> rat list \<Rightarrow> rat \<times> rat"
  argsort :: "rat list \<Rightarrow> nat list"

definition argsort_ok :: "(rat list \<Rightarrow> nat list) \<Rightarrow> bool" where
  "argsort_ok srt \<longleftrightarrow>
     (\<forall>ks. mset (srt ks) = mset [0..<length ks] \<and> sorted (map (\<lambda>i. ks ! i) (srt ks)))"

text \<open>
  \<open>DataFrame.sort_values(by=..., ascending=...)\<close> on one column: for a descending sort
  pandas reverses the keys, sorts them ascending and reverses the positions back.
\<close>

definition nargsort :: "(rat list \<Rightarrow> nat list) \<Rightarrow> bool \<Rightarrow> rat list \<Rightarrow> nat list" where
  "nargsort srt ascending items =
     (if ascending then srt items
      else rev (map (\<lambda>i. length items - 1 - i) (srt (rev items))))"

definition sort_values :: "(rat list \<Rightarrow> nat list) \<Rightarrow> ('r \<Rightarrow> rat) \<Rightarrow> bool \<Rightarrow> 'r list \<Rightarrow> 'r list" where
  "sort_values srt by ascending df = map (\<lambda>i. df ! i) (nargsort srt ascending (map by df))"

text \<open>
  One \<open>argsort\<close> that meets \<open>argsort_ok\<close>, the insertion sort of the positions, on which
  the model can be evaluated.
\<close>

definition stable_argsort :: "rat list \<Rightarrow> nat list" where
  "stable_argsort ks = sort_key (\<lambda>i. ks ! i) [0..<length ks]"

text \<open>\<open>df.iloc[i]\<close>: a negative position counts from the end, a position out of range raises.\<close>

definition iloc :: "'a list \<Rightarrow> int \<Rightarrow> py_error + 'a" where
  "iloc df i =
     (if 0 \<le> i \<and> i < int (length df) then Inr (df ! nat i)
      else if i < 0 \<and> - int (length df) \<le> i then Inr (df ! nat (int (length df) + i))
      else Inl IndexError)"

text \<open>\<open>df.head(n)\<close> is \<open>df.iloc[:n]\<close>: a negative \<open>n\<close> drops the last \<open>-n\<close> rows.\<close>

definition head :: "int \<Rightarrow> 'a list \<Rightarrow> 'a list" where
  "head n df = (if 0 \<le> n then take (nat n) df else take (length df - nat (- n)) df)"

text \<open>\<open>df.reset_index().index + 1\<close>: the positions of the rows, counted from one.\<close>

definition reset_index_plus_1 :: "'a list \<Rightarrow> nat list" where
  "reset_index_plus_1 df = [1..<length df + 1]"

text \<open>
  \<open>numpy.searchsorted(a, v, side='left')\<close>: the binary search for the first position
  whose entry is not below \<open>v\<close>.
\<close>

function bsearch_left :: "'a::linorder list \<Rightarrow> 'a \<Rightarrow> nat \<Rightarrow> nat \<Rightarrow> nat" where
  "bsearch_left a v lo hi =
     (if lo < hi then
        (let mid = lo + (hi - lo) div 2
         in if a ! mid < v then bsearch_left a v (mid + 1) hi else bsearch_left a v lo mid)
      else lo)"
  by pat_completeness auto
termination
  by (relation "measure (\<lambda>(a, v, lo, hi). hi - lo)") auto

declare bsearch_left.simps [simp del]

definition searchsorted :: "'a::linorder list \<Rightarrow> 'a \<Rightarrow> nat" where
  "searchsorted a v = bsearch_left a v 0 (length a)"

text \<open>\<open>Series.rank()\<close> with its default method: ties share the average of their positions.\<close>

definition rank_avg :: "rat list \<Rightarrow> rat list" where
  "rank_avg xs =
     map (\<lambda>x. of_nat (length (filter (\<lambda>y. y < x) xs))
              + (of_nat (length (filter (\<lambda>y. y = x) xs)) + 1) / 2) xs"

section \<open>\<open>hgmd.py\<close>\<close>

text \<open>
  The cell table of \<open>get_cell_data\<close>: one row per cell, the columns \<open>cluster\<close>,
  \<open>tSNE_1\<close>, \<open>tSNE_2\<close> and then one column per gene, kept column by column. Gene names
  are taken to be distinct, so that selecting a column by its name selects that column.
\<close>

record cells =
  cell_ids :: "string list"
  cluster_col :: "int list"
  tSNE_1 :: "rat list"
  tSNE_2 :: "rat list"
  gene_cols :: "(string \<times> rat list) list"

text \<open>The rows of the table \<open>singleton_test\<close> builds, before and after \<open>rank\<close> is joined.\<close>

record gene_data =
  gene :: string
  HG_stat :: rat
  mHG_pval :: rat
  mHG_cutoff_index :: nat
  mHG_cutoff_value :: rat
  t_stat :: rat
  t_pval :: rat

record singleton_row = gene_data +
  rank :: rat

text \<open>
  The slide of lines 125 to 133, on the expression values already sorted descending:
  the cutoff value is read at the raw index, then the index is searched again in the
  negated values.
\<close>

definition slide :: "rat list \<Rightarrow> int \<Rightarrow> py_error + (rat \<times> nat)" where
  "slide vals raw_index =
     bind_err (iloc vals raw_index) (\<lambda>cutoff_value.
       Inr (cutoff_value, searchsorted (map uminus vals) (- cutoff_value)))"

text \<open>The body of the loop over the gene columns.\<close>

definition test_gene :: "lib \<Rightarrow> int list \<Rightarrow> int \<Rightarrow> int \<Rightarrow> int \<Rightarrow> string \<times> rat list
    \<Rightarrow> py_error + gene_data" where
  "test_gene lb clusters cluster X L gcol =
     (let exp = sort_values (argsort lb) snd False (zip clusters (snd gcol));
          v = map (\<lambda>(c, x). if c = cluster then 1 else 0) exp
      in bind_err (xlmhg_test lb v X L) (\<lambda>(stat, raw_index, pval).
         bind_err (slide (map snd exp) raw_index) (\<lambda>(cutoff_value, cutoff_index).
           (let sample = map snd (filter (\<lambda>(c, x). c = cluster) exp);
                population = map snd (filter (\<lambda>(c, x). c \<noteq> cluster) exp);
                (t, tp) = ttest_ind lb sample population
            in Inr \<lparr>gene = fst gcol, HG_stat = stat, mHG_pval = pval,
                    mHG_cutoff_index = cutoff_index, mHG_cutoff_value = cutoff_value,
                    t_stat = t, t_pval = tp\<rparr>))))"

fun test_genes :: "lib \<Rightarrow> int list \<Rightarrow> int \<Rightarrow> int \<Rightarrow> int \<Rightarrow> (string \<times> rat list) list
    \<Rightarrow> gene_data list \<Rightarrow> py_error + gene_data list" where
  "test_genes lb clusters cluster X L [] output = Inr output"
| "test_genes lb clusters cluster X L (gcol # rest) output =
     bind_err (test_gene lb clusters cluster X L gcol) (\<lambda>gd.
       test_genes lb clusters cluster X L rest (output @ [gd]))"

definition singleton_test :: "lib \<Rightarrow> cells \<Rightarrow> int \<Rightarrow> int \<Rightarrow> int \<Rightarrow> py_error + singleton_row list" where
  "singleton_test lb cells cluster X L =
     bind_err (test_genes lb (cluster_col cells) cluster X L (gene_cols cells) []) (\<lambda>output.
       (let HG_rank = rank_avg (map mHG_pval output);
            t_rank = rank_avg (map t_pval output);
            combined_rank = map2 (+) HG_rank t_rank;
            joined = map2 (\<lambda>gd r. gene_data.extend gd \<lparr>rank = r\<rparr>) output combined_rank
        in Inr (sort_values (argsort lb) rank True joined)))"

text \<open>
  \<open>pair_test\<close> returns \<open>pd.DataFrame()\<close>, a table with no column and no row, whatever
  its arguments. A row of the table its docstring describes holds \<open>gene\<close>, \<open>gene_B\<close> and
  \<open>HG_stat\<close>.
\<close>

type_synonym pair_test_row = "string \<times> string \<times> rat"

definition pair_test :: "cells \<Rightarrow> singleton_row list \<Rightarrow> int \<Rightarrow> rat \<Rightarrow> pair_test_row list" where
  "pair_test cells singleton cluster min_exp_ratio = []"

text \<open>
  \<open>find_TP_TN\<close> is \<open>pass\<close>: it returns \<open>None\<close>; the three tables it was given are
  returned beside it as the state after the call.
\<close>

definition find_TP_TN :: "cells \<Rightarrow> singleton_row list \<Rightarrow> pair_test_row list \<Rightarrow> int
    \<Rightarrow> py_val \<times> cells \<times> singleton_row list \<times> pair_test_row list" where
  "find_TP_TN cells singleton pair cluster = (PyNone, cells, singleton, pair)"

text \<open>The expression values of one gene in the order \<open>sort_values\<close> leaves them: descending.\<close>

definition descending :: "rat list \<Rightarrow> bool" where
  "descending vals = sorted_wrt (\<lambda>x y. y \<le> x) vals"



section \<open>\<open>process\<close>: one cluster of interest\<close>

text \<open>
  \<open>process\<close> works on tables that the functions \<open>batch_xlmhg\<close>, \<open>mhg_slide\<close>,
  \<open>batch_stats\<close>, \<open>batch_fold_change\<close>, \<open>tp_tn\<close>, \<open>pair_hg\<close>, \<open>ranker\<close>, \<open>trips_hg\<close> and
  \<open>quads_hg\<close> hand to it. A row of the \<open>xlmhg\<close> table after the merge with the slid
  cutoffs holds \<open>gene_1\<close>, \<open>mHG_stat\<close>, \<open>mHG_pval\<close> and \<open>cutoff_val\<close>; the merged singleton
  table adds the fold change, \<open>TP\<close>, \<open>TN\<close> and the columns of the t-test and of the
  q-values. Column names that a table of \<open>hgmd.py\<close> already uses carry a prime.
\<close>

record xlmhg_row =
  gene_1 :: string
  mHG_stat :: rat
  mHG_pval' :: rat
  cutoff_val :: rat

record sing_row = xlmhg_row +
  Log2FoldChange :: rat
  TP :: rat
  TN :: rat
  other_cols :: "rat list"

record sing_out_row = sing_row +
  hgrank :: nat
  fcrank :: nat
  rank' :: nat
  Plot :: "nat option"

text \<open>
  A row of the pair, triple and quadruple tables: the gene columns \<open>gene_1\<close>, \<open>gene_2\<close>,
  ..., then \<open>HG_stat\<close>, \<open>HG_pval\<close> and the remaining numeric columns.
\<close>

record comb_row =
  comb_genes :: "string list"
  HG_stat' :: rat
  HG_pval :: rat
  comb_others :: "rat list"

text \<open>
  \<open>df['rank'] = df.reset_index().index + 1\<close>: each row paired with its position, counted
  from one.
\<close>

definition with_rank :: "'r list \<Rightarrow> ('r \<times> nat) list" where
  "with_rank df = zip df (reset_index_plus_1 df)"

text \<open>
  Lines 249 to 260: the loop that collects the first column of the rows of \<open>xlmhg\<close>,
  sorted by \<open>mHG_stat\<close>, until 150 are taken; \<open>len(abbrev)\<close> raises on \<open>None\<close>.
\<close>

fun take_trips :: "nat \<Rightarrow> string list \<Rightarrow> 'a xlmhg_row_scheme list \<Rightarrow> string list" where
  "take_trips cnt trips_list [] = trips_list"
| "take_trips cnt trips_list (row # rest) =
     (if cnt = 150 then trips_list
      else take_trips (cnt + 1) (trips_list @ [gene_1 row]) rest)"

definition abbrev_trips_list :: "py_val \<Rightarrow> 'a xlmhg_row_scheme list
    \<Rightarrow> py_error + string list option" where
  "abbrev_trips_list abbrev xlmhg =
     bind_err (py_len abbrev) (\<lambda>n.
       if 0 < n then Inr (Some (take_trips 0 [] xlmhg)) else Inr None)"

text \<open>
  Lines 387 to 407: the singleton table is sorted by \<open>mHG_stat\<close> ascending and numbered
  (\<open>hgrank\<close>), sorted by \<open>Log2FoldChange\<close> descending and numbered (\<open>fcrank\<close>), sorted by
  the mean of the two and numbered (\<open>rank\<close>); the first 99 rows get \<open>Plot = 1\<close>.
\<close>

definition finrank :: "('r \<times> nat) \<times> nat \<Rightarrow> rat" where
  "finrank row = (of_nat (snd (fst row)) + of_nat (snd row)) / 2"

fun mark_plot :: "nat \<Rightarrow> sing_out_row list \<Rightarrow> sing_out_row list" where
  "mark_plot cnt [] = []"
| "mark_plot cnt (row # rest) =
     (if cnt = 100 then row # rest
      else row\<lparr>Plot := Some 1\<rparr> # mark_plot (cnt + 1) rest)"

definition rank_stages :: "(rat list \<Rightarrow> nat list) \<Rightarrow> ('r \<Rightarrow> rat) \<Rightarrow> ('r \<Rightarrow> rat) \<Rightarrow> 'r list
    \<Rightarrow> ((('r \<times> nat) \<times> nat) \<times> nat) list" where
  "rank_stages srt stat fc merged =
     (let by_hg = with_rank (sort_values srt stat True merged);
          by_fc = with_rank (sort_values srt (\<lambda>row. fc (fst row)) False by_hg)
      in with_rank (sort_values srt finrank True by_fc))"

definition mk_out :: "((sing_row \<times> nat) \<times> nat) \<times> nat \<Rightarrow> sing_out_row" where
  "mk_out = (\<lambda>(((row, hg), fc), k).
     sing_row.extend row \<lparr>hgrank = hg, fcrank = fc, rank' = k, Plot = None\<rparr>)"

definition sing_output :: "(rat list \<Rightarrow> nat list) \<Rightarrow> sing_row list \<Rightarrow> sing_out_row list" where
  "sing_output srt merged =
     mark_plot 1 (map mk_out (rank_stages srt mHG_stat Log2FoldChange merged))"


text \<open>Three genes whose order by \<open>mHG_stat\<close> differs from their order by \<open>mHG_pval\<close>.\<close>

definition example_singletons :: "sing_row list" where
  "example_singletons =
     [\<lparr>gene_1 = ''A'', mHG_stat = 1 / 10, mHG_pval' = 2 / 10, cutoff_val = 0,
       Log2FoldChange = 1, TP = 0, TN = 0, other_cols = []\<rparr>,
      \<lparr>gene_1 = ''B'', mHG_stat = 2 / 10, mHG_pval' = 3 / 10, cutoff_val = 0,
       Log2FoldChange = 3, TP = 0, TN = 0, other_cols = []\<rparr>,
      \<lparr>gene_1 = ''C'', mHG_stat = 3 / 10, mHG_pval' = 1 / 10, cutoff_val = 0,
       Log2FoldChange = 2, TP = 0, TN = 0, other_cols = []\<rparr>]"

text \<open>
  The tables written to the CSV files of one cluster. The pair table is sorted by
  \<open>HG_pval\<close>, the triple and quadruple tables by \<open>HG_stat\<close>; each is numbered and cut with
  \<open>head(Trim)\<close>. The table of \<open>ranker\<close> is cut as it comes. The singleton table is
  written whole. Triples exist only for \<open>K == 3\<close>, quadruples only for \<open>K >= 4\<close>.
  The tables of the helper functions are named after the function that returns them.
\<close>

record 'rp helper_tables =
  merged_sing :: "sing_row list"
  pair_hg :: "comb_row list"
  ranker :: "'rp list"
  trips_hg :: "comb_row list"
  quads_hg :: "comb_row list"

record 'rp csv_files =
  singleton_csv :: "sing_out_row list"
  pair_HG_stat_ranked_csv :: "(comb_row \<times> nat) list"
  pair_final_ranking_csv :: "'rp list"
  trips_csv :: "(comb_row \<times> nat) list option"
  quads_csv :: "(comb_row \<times> nat) list option"

definition pair_out_initial :: "(rat list \<Rightarrow> nat list) \<Rightarrow> comb_row list \<Rightarrow> (comb_row \<times> nat) list" where
  "pair_out_initial srt pair = with_rank (sort_values srt HG_pval True pair)"

definition write_csv :: "(rat list \<Rightarrow> nat list) \<Rightarrow> int \<Rightarrow> int \<Rightarrow> 'rp helper_tables \<Rightarrow> 'rp csv_files" where
  "write_csv srt K Trim h =
     \<lparr>singleton_csv = sing_output srt (merged_sing h),
      pair_HG_stat_ranked_csv = head Trim (pair_out_initial srt (pair_hg h)),
      pair_final_ranking_csv = head Trim (ranker h),
      trips_csv = (if K = 3
        then Some (head Trim (with_rank (sort_values srt HG_stat' True (trips_hg h)))) else None),
      quads_csv = (if 4 \<le> K
        then Some (head Trim (with_rank (sort_values srt HG_stat' True (quads_hg h)))) else None)\<rparr>"

text \<open>
  \<open>process\<close> from the sorted \<open>xlmhg\<close> table on. The tables of the helper functions depend
  on the list of abbreviated genes and on the \<open>xlmhg\<close> table, so they are a function of
  both. The result is that list and the tables written.
\<close>

definition process :: "(rat list \<Rightarrow> nat list) \<Rightarrow> int \<Rightarrow> py_val \<Rightarrow> int \<Rightarrow> xlmhg_row list
    \<Rightarrow> (string list option \<Rightarrow> xlmhg_row list \<Rightarrow> 'rp helper_tables)
    \<Rightarrow> py_error + (string list option \<times> 'rp csv_files)" where
  "process srt K abbrev Trim xlmhg helpers =
     (let xlmhg_sorted = sort_values srt mHG_stat True xlmhg
      in bind_err (abbrev_trips_list abbrev xlmhg_sorted) (\<lambda>trips_list.
           Inr (trips_list, write_csv srt K Trim (helpers trips_list xlmhg_sorted))))"

text \<open>
  Modelled from the spec: \<open>hgmd.combination_product\<close> and \<open>quads.combination_product\<close>,
  the enumerators of triples and quadruples, are not among the sources. By section 4.3
  the candidate genes are the genes of the discrete matrix, restricted to the list of
  abbreviated genes when there is one; a tuple takes its genes in strictly increasing
  position, and no tuple holds a gene together with its own complement. A complement is
  named by appending \<open>_c\<close>, as the docstring of \<open>singleton_test\<close> says.
\<close>

definition candidate_genes :: "string list \<Rightarrow> string list option \<Rightarrow> string list" where
  "candidate_genes genes trips_list =
     (case trips_list of None \<Rightarrow> genes | Some abbreviated \<Rightarrow> filter (\<lambda>g. g \<in> set abbreviated) genes)"

fun tuples_of :: "nat \<Rightarrow> 'a list \<Rightarrow> 'a list list" where
  "tuples_of 0 xs = [[]]"
| "tuples_of (Suc k) [] = []"
| "tuples_of (Suc k) (x # xs) = map (\<lambda>t. x # t) (tuples_of k xs) @ tuples_of (Suc k) xs"

definition with_own_complement :: "string list \<Rightarrow> bool" where
  "with_own_complement t = (\<exists>g \<in> set t. g @ ''_c'' \<in> set t)"

definition combination_product :: "string list \<Rightarrow> string list option \<Rightarrow> string list list" where
  "combination_product genes trips_list =
     filter (\<lambda>t. \<not> with_own_complement t) (tuples_of 3 (candidate_genes genes trips_list))"

definition quads_combination_product :: "string list \<Rightarrow> string list option \<Rightarrow> string list list" where
  "quads_combination_product genes trips_list =
     filter (\<lambda>t. \<not> with_own_complement t) (tuples_of 4 (candidate_genes genes trips_list))"


text \<open>Tables of a small run: three singletons, two pairs of equal p-value.\<close>

definition example_pairs :: "comb_row list" where
  "example_pairs =
     [\<lparr>comb_genes = [''A'', ''B''], HG_stat' = 1 / 4, HG_pval = 1 / 2, comb_others = []\<rparr>,
      \<lparr>comb_genes = [''A'', ''C''], HG_stat' = 1 / 4, HG_pval = 1 / 2, comb_others = []\<rparr>]"

definition example_xlmhg :: "xlmhg_row list" where
  "example_xlmhg = map xlmhg_row.truncate example_singletons"

definition example_tables :: "comb_row helper_tables" where
  "example_tables =
     \<lparr>merged_sing = example_singletons, pair_hg = example_pairs, ranker = example_pairs,
      trips_hg = [], quads_hg = []\<rparr>"

section \<open>Properties\<close>

subsection \<open>Sorting with any admissible \<open>argsort\<close>\<close>

lemma stable_argsort_ok: "argsort_ok stable_argsort"
  by (simp add: argsort_ok_def stable_argsort_def)

lemma argsort_ok_set:
  assumes "argsort_ok srt"
  shows "set (srt ks) = {0..<length ks}"
proof -
  from assms have "mset (srt ks) = mset [0..<length ks]"
    by (simp add: argsort_ok_def)
  then have "set (srt ks) = set [0..<length ks]"
    by (rule mset_eq_setD)
  then show ?thesis by simp
qed

lemma argsort_ok_length:
  assumes "argsort_ok srt"
  shows "length (srt ks) = length ks"
proof -
  from assms have "mset (srt ks) = mset [0..<length ks]"
    by (simp add: argsort_ok_def)
  then have "length (srt ks) = length [0..<length ks]"
    by (rule mset_eq_length)
  then show ?thesis by simp
qed

lemma reflect_upt: "map (\<lambda>i. n - 1 - i) [0..<n] = rev [0..<n]"
  by (rule nth_equalityI) (auto simp: rev_nth)

lemma nargsort_mset:
  assumes "argsort_ok srt"
  shows "mset (nargsort srt asc ks) = mset [0..<length ks]"
proof (cases asc)
  case True
  with assms show ?thesis by (simp add: nargsort_def argsort_ok_def)
next
  case False
  define f where "f = (\<lambda>i. length ks - 1 - i)"
  have q: "mset (srt (rev ks)) = mset [0..<length ks]"
    using assms by (simp add: argsort_ok_def)
  have "nargsort srt asc ks = rev (map f (srt (rev ks)))"
    using False by (simp add: nargsort_def f_def)
  then have "mset (nargsort srt asc ks) = image_mset f (mset (srt (rev ks)))"
    by simp
  also have "\<dots> = mset (map f [0..<length ks])"
    by (simp only: q mset_map)
  also have "map f [0..<length ks] = rev [0..<length ks]"
    unfolding f_def by (rule reflect_upt)
  finally show ?thesis by (simp only: mset_rev)
qed

lemma mset_map_nth:
  assumes "mset p = mset [0..<length xs]"
  shows "mset (map (\<lambda>i. xs ! i) p) = mset xs"
proof -
  have "mset (map (\<lambda>i. xs ! i) p) = image_mset (\<lambda>i. xs ! i) (mset p)"
    by simp
  also have "\<dots> = mset (map (\<lambda>i. xs ! i) [0..<length xs])"
    by (simp add: assms)
  also have "map (\<lambda>i. xs ! i) [0..<length xs] = xs"
    by (rule map_nth)
  finally show ?thesis .
qed

lemma sort_values_mset:
  assumes "argsort_ok srt"
  shows "mset (sort_values srt by asc df) = mset df"
  unfolding sort_values_def
  by (rule mset_map_nth) (simp add: nargsort_mset [OF assms])

lemma sort_values_length:
  assumes "argsort_ok srt"
  shows "length (sort_values srt by asc df) = length df"
  using sort_values_mset [OF assms, of "by" asc df] by (rule mset_eq_length)

lemma sort_values_set:
  assumes "argsort_ok srt"
  shows "set (sort_values srt by asc df) = set df"
  using sort_values_mset [OF assms, of "by" asc df] by (rule mset_eq_setD)

lemma sort_values_keys:
  assumes "argsort_ok srt"
  shows "map by (sort_values srt by asc df)
       = map (\<lambda>i. map by df ! i) (nargsort srt asc (map by df))"
proof -
  have "set (nargsort srt asc (map by df)) = set [0..<length (map by df)]"
    using nargsort_mset [OF assms, of asc "map by df"] by (rule mset_eq_setD)
  then have "\<forall>i \<in> set (nargsort srt asc (map by df)). i < length df"
    by simp
  then show ?thesis
    by (simp add: sort_values_def)
qed

lemma sort_values_ascending:
  assumes "argsort_ok srt"
  shows "sorted (map by (sort_values srt by True df))"
  using assms
  by (simp add: sort_values_keys [OF assms] nargsort_def argsort_ok_def)

lemma sort_values_descending:
  assumes "argsort_ok srt"
  shows "sorted (rev (map by (sort_values srt by False df)))"
proof -
  define ks where "ks = map by df"
  define q where "q = srt (rev ks)"
  define f where "f = (\<lambda>i. length ks - 1 - i)"
  have q: "\<forall>i \<in> set q. i < length ks"
    using argsort_ok_set [OF assms, of "rev ks"] by (simp add: q_def)
  have "map (\<lambda>i. ks ! i) (map f q) = map (\<lambda>i. rev ks ! i) q"
    using q by (auto simp: rev_nth f_def)
  moreover have "sorted (map (\<lambda>i. rev ks ! i) q)"
    using assms by (simp add: argsort_ok_def q_def)
  ultimately have s: "sorted (map (\<lambda>i. ks ! i) (map f q))"
    by (simp only:)
  have "map by (sort_values srt by False df) = map (\<lambda>i. ks ! i) (rev (map f q))"
    by (simp only: sort_values_keys [OF assms] nargsort_def ks_def q_def f_def if_False)
  then have "rev (map by (sort_values srt by False df)) = map (\<lambda>i. ks ! i) (map f q)"
    by (simp only: rev_map rev_rev_ident)
  with s show ?thesis by (simp only:)
qed

lemma sort_values_Nil:
  assumes "argsort_ok srt"
  shows "sort_values srt by asc [] = []"
  using sort_values_length [OF assms, of "by" asc "[]"] by simp

subsection \<open>The binary search and the slide\<close>

lemma bsearch_left_spec:
  assumes "sorted a" and "lo \<le> hi" and "hi \<le> length a"
    and "\<forall>k<lo. a ! k < v" and "\<forall>k. hi \<le> k \<and> k < length a \<longrightarrow> v \<le> a ! k"
  shows "lo \<le> bsearch_left a v lo hi \<and> bsearch_left a v lo hi \<le> hi
    \<and> (\<forall>k<bsearch_left a v lo hi. a ! k < v)
    \<and> (\<forall>k. bsearch_left a v lo hi \<le> k \<and> k < length a \<longrightarrow> v \<le> a ! k)"
  using assms
proof (induction a v lo hi rule: bsearch_left.induct)
  case (1 a v lo hi)
  show ?case
  proof (cases "lo < hi")
    case False
    then have "bsearch_left a v lo hi = lo"
      by (subst bsearch_left.simps) simp
    with False "1.prems" show ?thesis by simp
  next
    case True
    define mid where "mid = lo + (hi - lo) div 2"
    have mid: "lo \<le> mid" "mid < hi" using True by (auto simp: mid_def)
    show ?thesis
    proof (cases "a ! mid < v")
      case below: True
      have low: "\<forall>k<mid + 1. a ! k < v"
      proof (intro allI impI)
        fix k assume "k < mid + 1"
        then have "a ! k \<le> a ! mid"
          using "1.prems"(1,3) mid by (auto intro: sorted_nth_mono)
        with below show "a ! k < v" by simp
      qed
      have eq: "bsearch_left a v lo hi = bsearch_left a v (mid + 1) hi"
        using True below by (subst bsearch_left.simps) (simp add: mid_def Let_def)
      have "mid + 1 \<le> bsearch_left a v (mid + 1) hi \<and> bsearch_left a v (mid + 1) hi \<le> hi
        \<and> (\<forall>k<bsearch_left a v (mid + 1) hi. a ! k < v)
        \<and> (\<forall>k. bsearch_left a v (mid + 1) hi \<le> k \<and> k < length a \<longrightarrow> v \<le> a ! k)"
        using "1.IH"(1) [OF True mid_def below "1.prems"(1) _ "1.prems"(3) low "1.prems"(5)] mid
        by simp
      with eq mid show ?thesis by simp
    next
      case notbelow: False
      have high: "\<forall>k. mid \<le> k \<and> k < length a \<longrightarrow> v \<le> a ! k"
      proof (intro allI impI)
        fix k assume "mid \<le> k \<and> k < length a"
        then have "a ! mid \<le> a ! k"
          using "1.prems"(1) by (auto intro: sorted_nth_mono)
        with notbelow show "v \<le> a ! k" by simp
      qed
      have eq: "bsearch_left a v lo hi = bsearch_left a v lo mid"
        using True notbelow by (subst bsearch_left.simps) (simp add: mid_def Let_def)
      have "lo \<le> bsearch_left a v lo mid \<and> bsearch_left a v lo mid \<le> mid
        \<and> (\<forall>k<bsearch_left a v lo mid. a ! k < v)
        \<and> (\<forall>k. bsearch_left a v lo mid \<le> k \<and> k < length a \<longrightarrow> v \<le> a ! k)"
        using "1.IH"(2) [OF True mid_def notbelow "1.prems"(1) _ _ "1.prems"(4) high] mid "1.prems"(3)
        by simp
      with eq mid show ?thesis by simp
    qed
  qed
qed

lemma searchsorted_spec:
  assumes "sorted a"
  shows "searchsorted a v \<le> length a
    \<and> (\<forall>k<searchsorted a v. a ! k < v)
    \<and> (\<forall>k. searchsorted a v \<le> k \<and> k < length a \<longrightarrow> v \<le> a ! k)"
proof -
  have "\<forall>k<0. a ! k < v" and "\<forall>k. length a \<le> k \<and> k < length a \<longrightarrow> v \<le> a ! k"
    by auto
  from bsearch_left_spec [OF assms _ _ this] show ?thesis
    by (simp add: searchsorted_def)
qed


lemma descending_nth:
  assumes "descending vals" and "i \<le> j" and "j < length vals"
  shows "vals ! j \<le> vals ! i"
proof (cases "i = j")
  case True
  then show ?thesis by simp
next
  case False
  with assms show ?thesis
    by (simp add: descending_def sorted_wrt_iff_nth_less)
qed

lemma descending_uminus: "descending vals \<Longrightarrow> sorted (map uminus vals)"
  by (simp add: descending_def sorted_wrt_map sorted_wrt_iff_nth_less)

lemma iloc_Inr:
  assumes "iloc df i = Inr x"
  shows "\<exists>j<length df. df ! j = x"
proof (cases "0 \<le> i")
  case True
  with assms have "nat i < length df" and "df ! nat i = x"
    by (auto simp: iloc_def split: if_splits)
  then show ?thesis by blast
next
  case False
  with assms have "nat (int (length df) + i) < length df"
    and "df ! nat (int (length df) + i) = x"
    by (auto simp: iloc_def split: if_splits)
  then show ?thesis by blast
qed

lemma slide_spec:
  assumes "descending vals" and "slide vals i = Inr (v, r)"
  shows "r < length vals" and "vals ! r = v" and "\<forall>k<r. v < vals ! k"
    and "\<forall>k. r \<le> k \<and> k < length vals \<longrightarrow> vals ! k \<le> v"
proof -
  from assms(2) have il: "iloc vals i = Inr v"
    and r: "r = searchsorted (map uminus vals) (- v)"
    by (auto simp: slide_def bind_err_def split: sum.splits)
  from iloc_Inr [OF il] obtain j where j: "j < length vals" "vals ! j = v"
    by blast
  note sp = searchsorted_spec [OF descending_uminus [OF assms(1)], of "- v", folded r]
  from sp have rl: "r \<le> length vals" by simp
  from sp rl show before: "\<forall>k<r. v < vals ! k" by auto
  from sp show after: "\<forall>k. r \<le> k \<and> k < length vals \<longrightarrow> vals ! k \<le> v" by auto
  from before j have "r \<le> j" by (meson leI less_irrefl)
  with j show "r < length vals" by simp
  from descending_nth [OF assms(1) \<open>r \<le> j\<close> j(1)] j have "v \<le> vals ! r" by simp
  moreover from after \<open>r < length vals\<close> have "vals ! r \<le> v" by simp
  ultimately show "vals ! r = v" by simp
qed

lemma slide_at_nat:
  assumes "r < length vals"
  shows "slide vals (int r) = Inr (vals ! r, searchsorted (map uminus vals) (- (vals ! r)))"
  using assms by (simp add: slide_def bind_err_def iloc_def)

lemma take_filter_prefix:
  assumes "n \<le> length xs" and "\<forall>k<n. P (xs ! k)" and "\<forall>k. n \<le> k \<and> k < length xs \<longrightarrow> \<not> P (xs ! k)"
  shows "take n xs = filter P xs" and "drop n xs = filter (\<lambda>x. \<not> P x) xs"
proof -
  have t: "\<forall>x \<in> set (take n xs). P x"
    using assms(1,2) by (auto simp: in_set_conv_nth)
  have d: "\<forall>x \<in> set (drop n xs). \<not> P x"
    using assms(1,3) by (auto simp: in_set_conv_nth)
  have "filter P xs = filter P (take n xs) @ filter P (drop n xs)"
    by (metis append_take_drop_id filter_append)
  also have "filter P (take n xs) = take n xs" using t by simp
  also have "filter P (drop n xs) = []" using d by simp
  finally show "take n xs = filter P xs" by simp
  have "filter (\<lambda>x. \<not> P x) xs = filter (\<lambda>x. \<not> P x) (take n xs) @ filter (\<lambda>x. \<not> P x) (drop n xs)"
    by (metis append_take_drop_id filter_append)
  also have "filter (\<lambda>x. \<not> P x) (take n xs) = []" using t by simp
  also have "filter (\<lambda>x. \<not> P x) (drop n xs) = drop n xs" using d by simp
  finally show "drop n xs = filter (\<lambda>x. \<not> P x) xs" by simp
qed

lemma sort_values_False_descending:
  assumes "argsort_ok srt"
  shows "descending (map by (sort_values srt by False df))"
  using sort_values_descending [OF assms, of "by" df]
  by (simp add: descending_def sorted_wrt_rev)

text \<open>
  In \<open>test_gene\<close> the slide runs on the column that \<open>sort_values\<close> has sorted
  descending: the rows before the cutoff index it stores are the rows whose expression
  is above the cutoff value it stores.
\<close>

lemma test_gene_cutoff:
  assumes ok: "argsort_ok (argsort lb)"
    and res: "test_gene lb clusters cluster X L gcol = Inr gd"
  shows "take (mHG_cutoff_index gd) (sort_values (argsort lb) snd False (zip clusters (snd gcol)))
       = filter (\<lambda>(c, x). mHG_cutoff_value gd < x)
           (sort_values (argsort lb) snd False (zip clusters (snd gcol)))"
proof -
  define E where "E = sort_values (argsort lb) snd False (zip clusters (snd gcol))"
  have d: "descending (map snd E)"
    unfolding E_def by (rule sort_values_False_descending [OF ok])
  from res obtain raw where s: "slide (map snd E) raw = Inr (mHG_cutoff_value gd, mHG_cutoff_index gd)"
    by (auto simp: test_gene_def Let_def bind_err_def E_def split: sum.splits prod.splits)
  note sp = slide_spec [OF d s]
  have "mHG_cutoff_index gd \<le> length E"
    using sp(1) by simp
  moreover have "\<forall>k<mHG_cutoff_index gd. (\<lambda>(c, x). mHG_cutoff_value gd < x) (E ! k)"
    using sp(1,3) by (simp add: case_prod_unfold)
  moreover have "\<forall>k. mHG_cutoff_index gd \<le> k \<and> k < length E
      \<longrightarrow> \<not> (\<lambda>(c, x). mHG_cutoff_value gd < x) (E ! k)"
    using sp(4) by (auto simp: case_prod_unfold)
  ultimately show ?thesis
    unfolding E_def [symmetric] by (rule take_filter_prefix(1))
qed





text \<open>
  C6. On a column sorted descending, sliding an index that the slide returned gives
  the same cutoff value and the same index again.
\<close>

theorem slide_idempotent:
  assumes "descending vals" and "slide vals i = Inr (v, r)"
  shows "slide vals (int r) = Inr (v, r)"
proof -
  from assms(2) have r: "r = searchsorted (map uminus vals) (- v)"
    by (auto simp: slide_def bind_err_def split: sum.splits)
  from slide_spec(1,2) [OF assms] slide_at_nat [of r vals] r show ?thesis by simp
qed

theorem slide_idempotent_witness:
  "descending [53 / 10, 12 / 10, 0, 0, 0, 0]
   \<and> slide [53 / 10, 12 / 10, 0, 0, 0, 0] 4 = Inr (0, 2)
   \<and> slide [53 / 10, 12 / 10, 0, 0, 0, 0] (int 2) = Inr (0, 2)"
proof -
  have d: "descending [53 / 10, 12 / 10, 0, 0, 0, 0]"
    by code_simp
  have s: "slide [53 / 10, 12 / 10, 0, 0, 0, 0] 4 = Inr (0, 2)"
    by code_simp
  from slide_idempotent [OF d s] d s show ?thesis
    by simp
qed

subsection \<open>The functions of \<open>hgmd.py\<close>\<close>

text \<open>
  C1. The claim: whenever the discrete matrix admits a valid gene pair, the table
  \<open>pair_test\<close> returns is non-empty and holds one row per enumerated pair with its
  hypergeometric statistic. The docstring of \<open>pair_test\<close> promises that table; the body
  returns an empty one for every input, so also for cells with two genes.
\<close>

theorem pair_test_returns_empty:
  "pair_test cells singleton cluster min_exp_ratio = []"
  by (simp add: pair_test_def)

text \<open>
  C9. \<open>find_TP_TN\<close> returns \<open>None\<close> and leaves the cell table, the singleton table and
  the pair table as they were: no column is appended and no field is changed.
\<close>

theorem find_TP_TN_changes_nothing:
  "find_TP_TN cells singleton pair cluster = (PyNone, cells, singleton, pair)"
  by (simp add: find_TP_TN_def)

text \<open>
  Every error of the gene loop is one that the XL-mHG test raised or the \<open>IndexError\<close>
  of \<open>iloc\<close>.
\<close>

lemma slide_error: "slide vals i = Inl e \<Longrightarrow> e = IndexError"
  by (auto simp: slide_def bind_err_def iloc_def split: sum.splits if_splits)

lemma test_gene_error:
  assumes "test_gene lb clusters cluster X L gcol = Inl e"
  shows "(\<exists>v. xlmhg_test lb v X L = Inl e) \<or> e = IndexError"
proof -
  define E where "E = sort_values (argsort lb) snd False (zip clusters (snd gcol))"
  define v where "v = map (\<lambda>(c, x). if c = cluster then 1 else (0::int)) E"
  show ?thesis
  proof (cases "xlmhg_test lb v X L")
    case (Inl e')
    with assms have "e' = e"
      by (simp add: test_gene_def Let_def bind_err_def E_def v_def)
    with Inl show ?thesis by blast
  next
    case (Inr res)
    obtain stat raw pval where res: "res = (stat, raw, pval)"
      by (cases res) auto
    from assms Inr res have "slide (map snd E) raw = Inl e"
      by (auto simp: test_gene_def Let_def bind_err_def E_def v_def split: sum.splits prod.splits)
    then show ?thesis by (simp add: slide_error)
  qed
qed

lemma test_genes_error:
  assumes "test_genes lb clusters cluster X L gcols acc = Inl e"
  shows "(\<exists>v. xlmhg_test lb v X L = Inl e) \<or> e = IndexError"
  using assms
proof (induction gcols arbitrary: acc)
  case Nil
  then show ?case by simp
next
  case (Cons gcol rest)
  show ?case
  proof (cases "test_gene lb clusters cluster X L gcol")
    case (Inl e')
    with Cons.prems have "e' = e" by (simp add: bind_err_def)
    with Inl test_gene_error show ?thesis by blast
  next
    case (Inr gd)
    with Cons.prems have "test_genes lb clusters cluster X L rest (acc @ [gd]) = Inl e"
      by (simp add: bind_err_def)
    then show ?thesis by (rule Cons.IH)
  qed
qed

text \<open>
  C8. The claim: \<open>singleton_test\<close> fails with an invalid-input error when the cluster
  label is absent, or \<open>X\<close> or \<open>L\<close> is out of bounds. The docstring lists these errors under
  Raises, but the function checks nothing itself: on a cell table without gene columns
  the loop body never runs and an empty table is returned for every cluster label,
  \<open>X\<close> and \<open>L\<close>; and on any cell table the only errors are those the XL-mHG test
  raises and the \<open>IndexError\<close> of a cutoff index out of range.
\<close>

theorem singleton_test_checks_nothing:
  assumes "argsort_ok (argsort lb)"
  shows "singleton_test lb (cells\<lparr>gene_cols := []\<rparr>) cluster X L = Inr []
    \<and> (\<forall>e. singleton_test lb cells cluster X L = Inl e
          \<longrightarrow> (\<exists>v. xlmhg_test lb v X L = Inl e) \<or> e = IndexError)"
proof -
  have "singleton_test lb (cells\<lparr>gene_cols := []\<rparr>) cluster X L = Inr []"
    by (simp add: singleton_test_def bind_err_def rank_avg_def sort_values_Nil [OF assms])
  moreover have "(\<exists>v. xlmhg_test lb v X L = Inl e) \<or> e = IndexError"
    if "singleton_test lb cells cluster X L = Inl e" for e
  proof -
    from that have "test_genes lb (cluster_col cells) cluster X L (gene_cols cells) [] = Inl e"
      by (auto simp: singleton_test_def bind_err_def Let_def split: sum.splits)
    then show ?thesis by (rule test_genes_error)
  qed
  ultimately show ?thesis by blast
qed

theorem singleton_test_checks_nothing_witness:
  "argsort_ok (argsort \<lparr>xlmhg_test = (\<lambda>v X L. Inl ValueError),
       ttest_ind = (\<lambda>a b. (0, 1)), argsort = stable_argsort\<rparr>)
   \<and> singleton_test \<lparr>xlmhg_test = (\<lambda>v X L. Inl ValueError),
       ttest_ind = (\<lambda>a b. (0, 1)), argsort = stable_argsort\<rparr>
       \<lparr>cell_ids = [''c1'', ''c2'', ''c3''], cluster_col = [1, 1, 2],
        tSNE_1 = [0, 1, 2], tSNE_2 = [0, 1, 2], gene_cols = []\<rparr> 7 (- 1) 0 = Inr []"
proof -
  have ok: "argsort_ok (argsort \<lparr>xlmhg_test = (\<lambda>v X L. Inl ValueError),
       ttest_ind = (\<lambda>a b. (0, 1)), argsort = stable_argsort\<rparr>)"
    by (simp add: stable_argsort_ok)
  from singleton_test_checks_nothing [OF ok,
      of "\<lparr>cell_ids = [''c1'', ''c2'', ''c3''], cluster_col = [1, 1, 2],
        tSNE_1 = [0, 1, 2], tSNE_2 = [0, 1, 2], gene_cols = []\<rparr>" 7 "- 1" 0] ok
  show ?thesis by simp
qed

subsection \<open>Numbering the rows of a sorted table\<close>

lemma reset_index_length: "length (reset_index_plus_1 df) = length df"
  by (simp add: reset_index_plus_1_def del: upt_Suc)




lemma with_rank_length: "length (with_rank df) = length df"
  by (simp add: with_rank_def reset_index_length)














subsection \<open>The abbreviated gene list\<close>

lemma take_trips_eq:
  assumes "cnt \<le> 150"
  shows "take_trips cnt acc rows = acc @ map gene_1 (take (150 - cnt) rows)"
  using assms
proof (induction rows arbitrary: cnt acc)
  case Nil
  then show ?case by simp
next
  case (Cons row rest)
  show ?case
  proof (cases "cnt = 150")
    case True
    then show ?thesis by simp
  next
    case False
    with Cons.prems have lt: "cnt < 150" by simp
    then have "150 - cnt = Suc (150 - (cnt + 1))" by simp
    moreover have "take_trips (cnt + 1) (acc @ [gene_1 row]) rest
        = (acc @ [gene_1 row]) @ map gene_1 (take (150 - (cnt + 1)) rest)"
      using lt by (intro Cons.IH) simp
    ultimately show ?thesis using False by simp
  qed
qed

lemma tuples_of_subset:
  assumes "t \<in> set (tuples_of k xs)"
  shows "length t = k \<and> set t \<subseteq> set xs"
  using assms
proof (induction k xs arbitrary: t rule: tuples_of.induct)
  case (1 xs)
  then show ?case by simp
next
  case (2 k)
  then show ?case by simp
next
  case (3 k x xs)
  from "3.prems" consider u where "t = x # u" and "u \<in> set (tuples_of k xs)"
    | "t \<in> set (tuples_of (Suc k) xs)"
    by auto
  then show ?case
  proof cases
    case 1
    with "3.IH"(1) [of u] show ?thesis by auto
  next
    case 2
    with "3.IH"(2) [of t] show ?thesis by auto
  qed
qed

lemma candidate_genes_subset: "set (candidate_genes genes (Some abbreviated)) \<subseteq> set abbreviated"
  by (auto simp: candidate_genes_def)

lemma sorted_take_drop:
  fixes key :: "'r \<Rightarrow> rat"
  assumes "sorted (map key S)" and "a \<in> set (take n S)" and "b \<in> set (drop n S)"
  shows "key a \<le> key b"
proof -
  have "sorted (map key (take n S) @ map key (drop n S))"
    using assms(1) by (simp only: map_append [symmetric] append_take_drop_id)
  with assms(2,3) show ?thesis
    by (auto simp: sorted_append)
qed


lemma process_trips_list:
  assumes "py_len abbrev = Inr n" and "0 < n"
  shows "map_sum id fst (process srt K abbrev Trim xlmhg helpers)
       = Inr (Some (map gene_1 (take 150 (sort_values srt mHG_stat True xlmhg))))"
  using assms
  by (simp add: process_def Let_def abbrev_trips_list_def bind_err_def take_trips_eq)

text \<open>
  C4. With an abbreviation request, that is a non-empty \<open>-Abbrev\<close> value, the list
  \<open>process\<close> hands to both enumerators holds the genes of the first 150 rows of the
  \<open>xlmhg\<close> table sorted by \<open>mHG_stat\<close> ascending: at most 150 genes whatever the number
  of genes, each of them at least as significant as every gene left out. Every triple
  and quadruple enumerated from that list takes all its genes from it.
\<close>

theorem abbreviation_top_150:
  assumes "argsort_ok srt" and "py_len abbrev = Inr n" and "0 < n"
  shows "map_sum id fst (process srt K abbrev Trim xlmhg helpers)
       = Inr (Some (map gene_1 (take 150 (sort_values srt mHG_stat True xlmhg))))
    \<and> length (map gene_1 (take 150 (sort_values srt mHG_stat True xlmhg)))
       = min 150 (length xlmhg)
    \<and> mset (sort_values srt mHG_stat True xlmhg) = mset xlmhg
    \<and> (\<forall>a\<in>set (take 150 (sort_values srt mHG_stat True xlmhg)).
        \<forall>b\<in>set (drop 150 (sort_values srt mHG_stat True xlmhg)). mHG_stat a \<le> mHG_stat b)
    \<and> (\<forall>t\<in>set (combination_product genes
            (Some (map gene_1 (take 150 (sort_values srt mHG_stat True xlmhg))))).
          length t = 3
          \<and> set t \<subseteq> set (map gene_1 (take 150 (sort_values srt mHG_stat True xlmhg))))
    \<and> (\<forall>t\<in>set (quads_combination_product genes
            (Some (map gene_1 (take 150 (sort_values srt mHG_stat True xlmhg))))).
          length t = 4
          \<and> set t \<subseteq> set (map gene_1 (take 150 (sort_values srt mHG_stat True xlmhg))))"
proof -
  define S where "S = sort_values srt mHG_stat True xlmhg"
  define top where "top = map gene_1 (take 150 S)"
  have 1: "map_sum id fst (process srt K abbrev Trim xlmhg helpers) = Inr (Some top)"
    unfolding top_def S_def by (rule process_trips_list [OF assms(2,3)])
  have 2: "length top = min 150 (length xlmhg)"
    by (simp add: top_def S_def sort_values_length [OF assms(1)] min.commute)
  have 3: "mset S = mset xlmhg"
    unfolding S_def by (rule sort_values_mset [OF assms(1)])
  have srt: "sorted (map mHG_stat S)"
    unfolding S_def by (rule sort_values_ascending [OF assms(1)])
  have 4: "\<forall>a\<in>set (take 150 S). \<forall>b\<in>set (drop 150 S). mHG_stat a \<le> mHG_stat b"
    using sorted_take_drop [OF srt] by blast
  have cand: "\<And>k t. t \<in> set (tuples_of k (candidate_genes genes (Some top)))
      \<Longrightarrow> length t = k \<and> set t \<subseteq> set top"
    using tuples_of_subset candidate_genes_subset by blast
  have 5: "\<forall>t\<in>set (combination_product genes (Some top)). length t = 3 \<and> set t \<subseteq> set top"
    using cand [of _ 3] by (simp add: combination_product_def)
  have 6: "\<forall>t\<in>set (quads_combination_product genes (Some top)). length t = 4 \<and> set t \<subseteq> set top"
    using cand [of _ 4] by (simp add: quads_combination_product_def)
  from 1 2 3 4 5 6 show ?thesis
    unfolding top_def S_def by (intro conjI)
qed

theorem abbreviation_top_150_witness:
  "argsort_ok stable_argsort \<and> py_len (PyStr ''3'') = Inr 1 \<and> (0::nat) < 1
   \<and> map_sum id fst (process stable_argsort 3 (PyStr ''3'') 2000 example_xlmhg
        (\<lambda>trips_list xlmhg. example_tables)) = Inr (Some [''A'', ''B'', ''C''])
   \<and> length (map gene_1 (take 150 (sort_values stable_argsort mHG_stat True
        (replicate 500 (hd example_xlmhg))))) = 150"
proof -
  have l: "py_len (PyStr ''3'') = Inr 1"
    by (simp add: py_len_def)
  have e: "map gene_1 (take 150 (sort_values stable_argsort mHG_stat True example_xlmhg))
      = [''A'', ''B'', ''C'']"
    by code_simp
  from abbreviation_top_150 [OF stable_argsort_ok l, of 3 2000 example_xlmhg
      "\<lambda>trips_list xlmhg. example_tables"] e l stable_argsort_ok
  have small: "map_sum id fst (process stable_argsort 3 (PyStr ''3'') 2000 example_xlmhg
        (\<lambda>trips_list xlmhg. example_tables)) = Inr (Some [''A'', ''B'', ''C''])"
    by simp
  from abbreviation_top_150 [OF stable_argsort_ok l, of 3 2000
      "replicate 500 (hd example_xlmhg)" "\<lambda>trips_list xlmhg. example_tables"]
  have large: "length (map gene_1 (take 150 (sort_values stable_argsort mHG_stat True
        (replicate 500 (hd example_xlmhg))))) = 150"
    by simp
  from small large l stable_argsort_ok show ?thesis by simp
qed

subsection \<open>The pair table\<close>





subsection \<open>Trimming the written tables\<close>

text \<open>
  C7, as amended. For a \<open>Trim\<close> value \<open>N\<close> that is not negative, the pair table, the final
  pair ranking, the triple table (\<open>K == 3\<close>) and the quadruple table (\<open>K >= 4\<close>) are
  written as the first \<open>N\<close> rows of the ranked table, in its order, or as the whole table
  when it has fewer rows. The singleton table is written whole. \<open>Trim\<close> is 2000 when the
  option is absent or has no value.
\<close>

theorem trim_keeps_first_rows:
  assumes "argsort_ok srt" and "0 \<le> Trim"
  shows "pair_HG_stat_ranked_csv (write_csv srt K Trim h)
       = take (nat Trim) (pair_out_initial srt (pair_hg h))
    \<and> length (pair_HG_stat_ranked_csv (write_csv srt K Trim h))
       = min (nat Trim) (length (pair_hg h))
    \<and> pair_final_ranking_csv (write_csv srt K Trim h) = take (nat Trim) (ranker h)
    \<and> length (pair_final_ranking_csv (write_csv srt K Trim h))
       = min (nat Trim) (length (ranker h))
    \<and> (K = 3 \<longrightarrow> trips_csv (write_csv srt K Trim h)
         = Some (take (nat Trim) (with_rank (sort_values srt HG_stat' True (trips_hg h)))))
    \<and> (4 \<le> K \<longrightarrow> quads_csv (write_csv srt K Trim h)
         = Some (take (nat Trim) (with_rank (sort_values srt HG_stat' True (quads_hg h)))))
    \<and> singleton_csv (write_csv srt K Trim h) = sing_output srt (merged_sing h)
    \<and> (\<forall>c. main_config a = Inr c \<and> (arg_Trim a = PyNone \<or> arg_Trim a = PyInt 2000)
          \<longrightarrow> cfg_Trim c = 2000)"
proof -
  have len: "length (pair_out_initial srt (pair_hg h)) = length (pair_hg h)"
    by (simp add: pair_out_initial_def with_rank_length sort_values_length [OF assms(1)])
  have dflt: "\<forall>c. main_config a = Inr c \<and> (arg_Trim a = PyNone \<or> arg_Trim a = PyInt 2000)
          \<longrightarrow> cfg_Trim c = 2000"
    by (auto simp: main_config_def bind_err_def py_int_def split: sum.splits if_splits)
  from assms(2) len dflt show ?thesis
    by (simp add: write_csv_def head_def min.commute)
qed

theorem trim_keeps_first_rows_witness:
  "argsort_ok stable_argsort \<and> (0::int) \<le> 1
   \<and> pair_final_ranking_csv (write_csv stable_argsort 3 1 example_tables)
       = take (nat 1) (ranker example_tables)
   \<and> length (pair_HG_stat_ranked_csv (write_csv stable_argsort 3 1 example_tables))
       = min (nat 1) (length (pair_hg example_tables))"
proof -
  have z: "(0::int) \<le> 1" by simp
  from trim_keeps_first_rows [OF stable_argsort_ok z, of 3 example_tables default_args]
    stable_argsort_ok z
  show ?thesis by blast
qed

text \<open>
  C7 as stated fails. With three singleton genes and \<open>Trim = 1\<close> the singleton table is
  written with its three rows; and with \<open>Trim = -1\<close> the pair table of two rows is
  written with one row, which is neither \<open>N\<close> rows nor the whole table.
\<close>

theorem trim_counterexample:
  "map_sum id (\<lambda>r. length (singleton_csv (snd r)))
     (process stable_argsort 2 PyEmptyList 1 example_xlmhg (\<lambda>trips_list xlmhg. example_tables))
     = Inr 3
   \<and> map_sum id (\<lambda>r. length (pair_HG_stat_ranked_csv (snd r)))
     (process stable_argsort 2 PyEmptyList (- 1) example_xlmhg
        (\<lambda>trips_list xlmhg. example_tables))
     = Inr 1
   \<and> length (pair_hg example_tables) = 2"
  by code_simp

subsection \<open>The configuration boundary\<close>

text \<open>
  C10, as amended. When \<open>main\<close> gets past its conversions, the order \<open>K\<close> handed to the
  cluster runs is at most 4: it is 2 when \<open>-K\<close> carries no value, 4 when the value
  supplied is greater than 4, and the supplied value itself otherwise. There is no lower
  clamp.
\<close>

theorem main_K_at_most_4:
  assumes "main_config a = Inr c"
  shows "cfg_K c \<le> 4
    \<and> (arg_K a = PyNone \<longrightarrow> cfg_K c = 2)
    \<and> (\<forall>n. arg_K a \<noteq> PyNone \<and> py_int (arg_K a) = Inr n
          \<longrightarrow> cfg_K c = (if 4 < n then 4 else n))"
  using assms
  by (auto simp: main_config_def bind_err_def split: sum.splits if_splits)

theorem main_K_at_most_4_witness:
  "main_config (default_args\<lparr>arg_K := PyStr ''9''\<rparr>)
     = Inr \<lparr>cfg_Trim = 2000, cfg_C = 1, cfg_X = None, cfg_L = None, cfg_K = 4,
            cfg_Abbrev = PyEmptyList\<rparr>
   \<and> main_config default_args
     = Inr \<lparr>cfg_Trim = 2000, cfg_C = 1, cfg_X = None, cfg_L = None, cfg_K = 2,
            cfg_Abbrev = PyEmptyList\<rparr>
   \<and> py_int (PyStr ''9'') = Inr 9"
proof -
  have a: "main_config (default_args\<lparr>arg_K := PyStr ''9''\<rparr>)
     = Inr \<lparr>cfg_Trim = 2000, cfg_C = 1, cfg_X = None, cfg_L = None, cfg_K = 4,
            cfg_Abbrev = PyEmptyList\<rparr>"
    by code_simp
  have b: "main_config default_args
     = Inr \<lparr>cfg_Trim = 2000, cfg_C = 1, cfg_X = None, cfg_L = None, cfg_K = 2,
            cfg_Abbrev = PyEmptyList\<rparr>"
    by code_simp
  have c: "py_int (PyStr ''9'') = Inr 9"
    by code_simp
  from main_K_at_most_4 [OF a] main_K_at_most_4 [OF b] a b c show ?thesis
    by simp
qed

text \<open>
  C10 as stated fails: with \<open>-K 1\<close> the run observes \<open>K = 1\<close>, which is not in
  \<open>{2, 3, 4}\<close>.
\<close>

theorem main_K_below_2_counterexample:
  "map_sum id cfg_K (main_config (default_args\<lparr>arg_K := PyStr ''1''\<rparr>)) = Inr 1
   \<and> (1::int) \<notin> {2, 3, 4}"
proof -
  have "map_sum id cfg_K (main_config (default_args\<lparr>arg_K := PyStr ''1''\<rparr>)) = Inr 1"
    by code_simp
  then show ?thesis by simp
qed

end
